theory Spec2Isabelle
  imports Complex_Main
begin

section \<open>The escape test\<close>

text \<open>
  The program \<^verbatim>\<open>julia.py\<close> plots a filled Julia set. Every exception the modelled
  code can raise is a value of type \<open>error\<close>.

  The escape test \<^verbatim>\<open>checkz\<close> is modelled twice. In this section and in the grid
  computation, Python floats are read as real numbers and Python complex numbers as HOL
  complex numbers: this reading has no rounding and no overflow, and the statements on
  the grid use it. The section on double precision models the same function on IEEE
  binary64 values, with the rounding of each operation and the \<^verbatim>\<open>OverflowError\<close> of
  \<^verbatim>\<open>abs\<close>; the statements on the escape test itself use that model.
\<close>


datatype error = IndexError | ValueError | OverflowError

text \<open>\<^verbatim>\<open>def f(z, c): return z*z + c\<close>\<close>

definition f :: "complex \<Rightarrow> complex \<Rightarrow> complex" where
  "f z c = z * z + c"

text \<open>
  The loop of \<^verbatim>\<open>checkz\<close>, from a loop counter \<open>n\<close>:
  \<^verbatim>\<open>
    while n <= max_iter:
        z = f(z, c)
        if abs(z) > r: return n
        n += 1
    return 0
  \<close>
\<close>

function checkz_loop :: "complex \<Rightarrow> complex \<Rightarrow> real \<Rightarrow> int \<Rightarrow> int \<Rightarrow> int" where
  "checkz_loop z c r max_iter n =
     (if n \<le> max_iter
      then (let z' = f z c
            in if cmod z' > r then n else checkz_loop z' c r max_iter (n + 1))
      else 0)"
  by pat_completeness auto
termination
  by (relation "measure (\<lambda>(z, c, r, max_iter, n). nat (max_iter + 1 - n))") auto

declare checkz_loop.simps [simp del]

text \<open>\<^verbatim>\<open>checkz\<close> starts the loop at \<open>n = 1\<close>.\<close>

definition checkz :: "complex \<Rightarrow> complex \<Rightarrow> real \<Rightarrow> int \<Rightarrow> int" where
  "checkz z c r max_iter = checkz_loop z c r max_iter 1"

text \<open>\<^verbatim>\<open>r = (1 + math.sqrt(1 + 4 * abs(c))) / 2\<close>\<close>

definition escape_radius :: "complex \<Rightarrow> real" where
  "escape_radius c = (1 + sqrt (1 + 4 * cmod c)) / 2"

section \<open>The pixel grid\<close>

text \<open>
  A two-dimensional numpy array is a list of rows. An index \<open>i\<close> on an axis of length
  \<open>n\<close> addresses element \<open>i\<close> when \<open>0 \<le> i < n\<close>, element \<open>n + i\<close> when \<open>-n \<le> i < 0\<close>, and
  raises \<^verbatim>\<open>IndexError\<close> otherwise.
\<close>

type_synonym grid = "real list list"

definition zeros :: "nat \<Rightarrow> nat \<Rightarrow> grid" where
  "zeros rows cols = replicate rows (replicate cols 0)"

definition norm_index :: "nat \<Rightarrow> int \<Rightarrow> error + nat" where
  "norm_index n i =
     (if 0 \<le> i \<and> i < int n then Inr (nat i)
      else if - int n \<le> i \<and> i < 0 then Inr (nat (int n + i))
      else Inl IndexError)"

definition norm_index2 :: "'a list list \<Rightarrow> int \<Rightarrow> int \<Rightarrow> error + (nat \<times> nat)" where
  "norm_index2 g i j =
     (case norm_index (length g) i of
        Inl e \<Rightarrow> Inl e
      | Inr y \<Rightarrow>
          (case norm_index (length (g ! y)) j of
             Inl e \<Rightarrow> Inl e
           | Inr x \<Rightarrow> Inr (y, x)))"

definition getitem :: "'a list list \<Rightarrow> int \<Rightarrow> int \<Rightarrow> error + 'a" where
  "getitem g i j =
     (case norm_index2 g i j of Inl e \<Rightarrow> Inl e | Inr (y, x) \<Rightarrow> Inr (g ! y ! x))"

text \<open>The array \<open>g\<close> after the assignment of \<open>v\<close> to its cell in row \<open>y\<close>, column \<open>x\<close>.\<close>

definition assign :: "'a list list \<Rightarrow> nat \<Rightarrow> nat \<Rightarrow> 'a \<Rightarrow> 'a list list" where
  "assign g y x v = g[y := (g ! y)[x := v]]"

definition setitem :: "'a list list \<Rightarrow> int \<Rightarrow> int \<Rightarrow> 'a \<Rightarrow> error + 'a list list" where
  "setitem g i j v =
     (case norm_index2 g i j of
        Inl e \<Rightarrow> Inl e
      | Inr (y, x) \<Rightarrow> Inr (assign g y x v))"

text \<open>
  The state of the grid computation: the array \<^verbatim>\<open>pixels\<close>, and the cells assigned so
  far, oldest first. The field \<open>written\<close> is a ghost variable: the program keeps no
  such list, the model appends to it at each assignment to \<^verbatim>\<open>pixels\<close>.
\<close>

record canvas =
  pixels :: grid
  written :: "(nat \<times> nat) list"

definition store :: "canvas \<Rightarrow> int \<Rightarrow> int \<Rightarrow> real \<Rightarrow> error + canvas" where
  "store s i j v =
     (case norm_index2 (pixels s) i j of
        Inl e \<Rightarrow> Inl e
      | Inr (y, x) \<Rightarrow>
          Inr \<lparr>pixels = assign (pixels s) y x v, written = written s @ [(y, x)]\<rparr>)"

text \<open>A \<^verbatim>\<open>for\<close> loop over a list, stopping at the first exception.\<close>

fun for_each :: "('a \<Rightarrow> 's \<Rightarrow> error + 's) \<Rightarrow> 'a list \<Rightarrow> 's \<Rightarrow> error + 's" where
  "for_each body [] s = Inr s"
| "for_each body (x # xs) s =
     (case body x s of Inl e \<Rightarrow> Inl e | Inr s' \<Rightarrow> for_each body xs s')"

text \<open>
  The body of the double loop of \<^verbatim>\<open>main\<close>, with the plot boundaries
  \<^verbatim>\<open>(x0, x1, y0, y1) = (-2, 2, -2, 2)\<close> and true division:
  \<^verbatim>\<open>
    x = x0 + (x1 - x0) * xpixel / x_res
    y = y0 + (y1 - y0) * ypixel / y_res
    if y < 0: continue
    z = x + 1j * y
    pix = checkz(z, c, r, max_iter)
    pixels[ypixel, xpixel] = pix
    pixels[-ypixel, -xpixel] = pix
  \<close>
\<close>

definition pixel_body ::
  "complex \<Rightarrow> real \<Rightarrow> int \<Rightarrow> int \<Rightarrow> int \<Rightarrow> int \<Rightarrow> canvas \<Rightarrow> error + canvas" where
  "pixel_body c r max_iter res xpixel ypixel s =
     (let x = - 2 + (2 - (- 2)) * real_of_int xpixel / real_of_int res;
          y = - 2 + (2 - (- 2)) * real_of_int ypixel / real_of_int res
      in if y < 0 then Inr s
         else (let z = complex_of_real x + \<i> * complex_of_real y;
                   pix = checkz z c r max_iter
               in case store s ypixel xpixel (real_of_int pix) of
                    Inl e \<Rightarrow> Inl e
                  | Inr s' \<Rightarrow> store s' (- ypixel) (- xpixel) (real_of_int pix)))"

text \<open>
  The grid computation of \<^verbatim>\<open>main\<close> for \<^verbatim>\<open>x_res = y_res = res\<close>:
  \<^verbatim>\<open>numpy.zeros\<close> raises \<^verbatim>\<open>ValueError\<close> on a negative dimension, \<^verbatim>\<open>range(res)\<close> is
  \<open>[0..res - 1]\<close>, the outer loop runs over \<^verbatim>\<open>xpixel\<close> and the inner over \<^verbatim>\<open>ypixel\<close>.
\<close>

definition compute_grid :: "complex \<Rightarrow> int \<Rightarrow> int \<Rightarrow> error + canvas" where
  "compute_grid c max_iter res =
     (if res < 0 then Inl ValueError
      else (let r = escape_radius c;
                s0 = \<lparr>pixels = zeros (nat res) (nat res), written = []\<rparr>
            in for_each
                 (\<lambda>xpixel. for_each (pixel_body c r max_iter res xpixel) [0..res - 1])
                 [0..res - 1] s0))"

section \<open>The colour stage\<close>

text \<open>
  A float of a numpy array after a division: a finite value, an infinity or NaN.
  \<^verbatim>\<open>numpy.divide\<close> does not raise on a zero divisor (it warns): \<open>0 / 0\<close> is NaN and
  \<open>a / 0\<close> is an infinity of the sign of \<open>a\<close>.
\<close>

datatype npfloat = Fin real | PInf | NInf | NaN

definition np_divide :: "real \<Rightarrow> real \<Rightarrow> npfloat" where
  "np_divide a b =
     (if b \<noteq> 0 then Fin (a / b)
      else if a = 0 then NaN
      else if a > 0 then PInf
      else NInf)"

text \<open>Comparison and arithmetic of an array element with a finite float.\<close>

fun np_eq :: "npfloat \<Rightarrow> real \<Rightarrow> bool" where
  "np_eq (Fin a) b = (a = b)"
| "np_eq PInf b = False"
| "np_eq NInf b = False"
| "np_eq NaN b = False"

fun np_gt :: "npfloat \<Rightarrow> real \<Rightarrow> bool" where
  "np_gt (Fin a) b = (a > b)"
| "np_gt PInf b = True"
| "np_gt NInf b = False"
| "np_gt NaN b = False"

fun np_add :: "npfloat \<Rightarrow> real \<Rightarrow> npfloat" where
  "np_add (Fin a) b = Fin (a + b)"
| "np_add PInf b = PInf"
| "np_add NInf b = NInf"
| "np_add NaN b = NaN"

fun np_sub :: "npfloat \<Rightarrow> real \<Rightarrow> npfloat" where
  "np_sub (Fin a) b = Fin (a - b)"
| "np_sub PInf b = PInf"
| "np_sub NInf b = NInf"
| "np_sub NaN b = NaN"

text \<open>
  \<^verbatim>\<open>numpy.amax\<close> of a two-dimensional array: the maximum of all its elements;
  \<^verbatim>\<open>ValueError\<close> on an array with no element.
\<close>

definition amax :: "grid \<Rightarrow> error + real" where
  "amax g = (case concat g of [] \<Rightarrow> Inl ValueError | v # vs \<Rightarrow> Inr (fold max vs v))"

text \<open>\<^verbatim>\<open>int(x)\<close> of a finite float truncates towards zero.\<close>

definition py_int :: "real \<Rightarrow> int" where
  "py_int x = (if 0 \<le> x then \<lfloor>x\<rfloor> else \<lceil>x\<rceil>)"

type_synonym rgb = "real \<times> real \<times> real"

text \<open>
  \<^verbatim>\<open>colorsys.hsv_to_rgb\<close> of the Python standard library, which the program calls:
  \<^verbatim>\<open>
    def hsv_to_rgb(h, s, v):
        if s == 0.0: return v, v, v
        i = int(h*6.0)
        f = (h*6.0) - i
        p = v*(1.0 - s)
        q = v*(1.0 - s*f)
        t = v*(1.0 - s*(1.0-f))
        i = i%6
        if i == 0: return v, t, p
        if i == 1: return q, v, p
        if i == 2: return p, v, t
        if i == 3: return p, q, v
        if i == 4: return t, p, v
        if i == 5: return v, p, q
  \<close>
  \<^verbatim>\<open>int\<close> raises \<^verbatim>\<open>ValueError\<close> on NaN and \<^verbatim>\<open>OverflowError\<close> on an infinity. Since
  \<open>i % 6\<close> is one of \<open>0, \<dots>, 5\<close>, the last test always succeeds where it is reached,
  and the model takes its branch as the final alternative.
\<close>

definition hsv_to_rgb :: "npfloat \<Rightarrow> real \<Rightarrow> real \<Rightarrow> error + rgb" where
  "hsv_to_rgb h s v =
     (if s = 0 then Inr (v, v, v)
      else (case h of
              NaN \<Rightarrow> Inl ValueError
            | PInf \<Rightarrow> Inl OverflowError
            | NInf \<Rightarrow> Inl OverflowError
            | Fin h' \<Rightarrow>
                (let i = py_int (h' * 6);
                     f = h' * 6 - real_of_int i;
                     p = v * (1 - s);
                     q = v * (1 - s * f);
                     t = v * (1 - s * (1 - f));
                     i = i mod 6
                 in if i = 0 then Inr (v, t, p)
                    else if i = 1 then Inr (q, v, p)
                    else if i = 2 then Inr (p, v, t)
                    else if i = 3 then Inr (p, q, v)
                    else if i = 4 then Inr (t, p, v)
                    else Inr (v, p, q))))"

text \<open>
  The colour of one pixel, from the body of the colour loop:
  \<^verbatim>\<open>
    if pixels[ypixel, xpixel] == 0:
        colour_pixels[ypixel, xpixel] = [0, 0, 0]
    else:
        hue = pixels[ypixel, xpixel] + hue_offset
        if hue > 1: hue -= 1
        col = colorsys.hsv_to_rgb(hue, 1, 0.5)
        colour_pixels[ypixel, xpixel] = col
  \<close>
\<close>

definition colour_pixel :: "real \<Rightarrow> npfloat \<Rightarrow> error + rgb" where
  "colour_pixel hue_offset p =
     (if np_eq p 0 then Inr (0, 0, 0)
      else (let hue = np_add p hue_offset;
                hue = (if np_gt hue 1 then np_sub hue 1 else hue)
            in hsv_to_rgb hue 1 (1 / 2)))"

definition colour_body ::
  "real \<Rightarrow> npfloat list list \<Rightarrow> int \<Rightarrow> int \<Rightarrow> rgb list list \<Rightarrow> error + rgb list list" where
  "colour_body hue_offset normalised xpixel ypixel colour_pixels =
     (case getitem normalised ypixel xpixel of
        Inl e \<Rightarrow> Inl e
      | Inr p \<Rightarrow>
          (case colour_pixel hue_offset p of
             Inl e \<Rightarrow> Inl e
           | Inr col \<Rightarrow> setitem colour_pixels ypixel xpixel col))"

text \<open>
  The colour stage of \<^verbatim>\<open>main\<close>: the grid is divided by its maximum, then every pixel
  is coloured, \<^verbatim>\<open>xpixel\<close> in the outer loop and \<^verbatim>\<open>ypixel\<close> in the inner one.
\<close>

definition colour_stage :: "real \<Rightarrow> int \<Rightarrow> grid \<Rightarrow> error + rgb list list" where
  "colour_stage hue_offset res g =
     (case amax g of
        Inl e \<Rightarrow> Inl e
      | Inr m \<Rightarrow>
          (let normalised = map (map (\<lambda>v. np_divide v m)) g;
               colour_pixels = replicate (nat res) (replicate (nat res) (0, 0, 0))
           in for_each
                (\<lambda>xpixel. for_each (colour_body hue_offset normalised xpixel) [0..res - 1])
                [0..res - 1] colour_pixels))"

section \<open>The command line and the image\<close>

text \<open>
  The value of \<^verbatim>\<open>args.colour\<close>. The option is declared with
  \<^verbatim>\<open>action='store_true', default='false'\<close>: the parser stores the constant \<^verbatim>\<open>True\<close>
  when the option occurs on the command line and the default, the string
  \<^verbatim>\<open>'false'\<close>, when it does not.
\<close>

datatype pyvalue = PyBool bool | PyStr string

definition colour_attr :: "bool \<Rightarrow> pyvalue" where
  "colour_attr given = (if given then PyBool True else PyStr ''false'')"

text \<open>\<^verbatim>\<open>v is True\<close>: identity with the constant \<^verbatim>\<open>True\<close>.\<close>

definition is_True :: "pyvalue \<Rightarrow> bool" where
  "is_True v = (v = PyBool True)"

text \<open>
  The array handed to the smoothing and writing steps: the escape grid itself
  (a greyscale image), or the three-channel array of the colour stage.
\<close>

datatype image = Grey grid | Colour "rgb list list"

definition render :: "complex \<Rightarrow> int \<Rightarrow> int \<Rightarrow> pyvalue \<Rightarrow> real \<Rightarrow> error + image" where
  "render c max_iter res colour hue_offset =
     (case compute_grid c max_iter res of
        Inl e \<Rightarrow> Inl e
      | Inr s \<Rightarrow>
          (if is_True colour
           then (case colour_stage hue_offset res (pixels s) of
                   Inl e \<Rightarrow> Inl e
                 | Inr colour_pixels \<Rightarrow> Inr (Colour colour_pixels))
           else Inr (Grey (pixels s))))"

section \<open>The escape test in double precision\<close>
























section \<open>Properties of arrays and loops\<close>

text \<open>An array of shape \<open>n \<times> n\<close>.\<close>

definition wf_grid :: "nat \<Rightarrow> 'a list list \<Rightarrow> bool" where
  "wf_grid n g \<longleftrightarrow> length g = n \<and> (\<forall>i<n. length (g ! i) = n)"

text \<open>The element that the negated index \<open>- k\<close> addresses on an axis of length \<open>n\<close>.\<close>

definition mirror :: "nat \<Rightarrow> nat \<Rightarrow> nat" where
  "mirror n k = (n - k) mod n"

text \<open>The invariant of the double loop: the shape, the point symmetry and the zero row.\<close>

definition grid_inv :: "nat \<Rightarrow> canvas \<Rightarrow> bool" where
  "grid_inv n s \<longleftrightarrow>
     wf_grid n (pixels s) \<and>
     (\<forall>y<n. \<forall>x<n. pixels s ! y ! x = pixels s ! mirror n y ! mirror n x) \<and>
     (\<forall>x<n. pixels s ! 0 ! x = 0)"

text \<open>The cells that one iteration of the double loop assigns, in order.\<close>

definition cells_of :: "int \<Rightarrow> int \<Rightarrow> int \<Rightarrow> (nat \<times> nat) list" where
  "cells_of res xpixel ypixel =
     (if 2 * ypixel < res then []
      else [(nat ypixel, nat xpixel),
            (mirror (nat res) (nat ypixel), mirror (nat res) (nat xpixel))])"

text \<open>The cells of an iteration that lie outside the middle row.\<close>

definition off_middle :: "int \<Rightarrow> nat \<times> nat \<Rightarrow> bool" where
  "off_middle res cell \<longleftrightarrow> 2 * int (fst cell) \<noteq> res"

section \<open>Lemmas on the escape test\<close>

lemma escape_radius_zero: "escape_radius 0 = 1"
  by (simp add: escape_radius_def)




























section \<open>Lemmas on arrays, indices and the double loop\<close>

lemma wf_grid_zeros: "wf_grid n (zeros n n)"
  by (simp add: wf_grid_def zeros_def)

lemma wf_grid_assign: "wf_grid n g \<Longrightarrow> wf_grid n (assign g y x v)"
  by (cases "y < length g") (auto simp add: wf_grid_def assign_def nth_list_update)

lemma nth_assign:
  "wf_grid n g \<Longrightarrow> y < n \<Longrightarrow> x < n \<Longrightarrow> y' < n \<Longrightarrow> x' < n \<Longrightarrow>
     assign g y x v ! y' ! x' = (if y' = y \<and> x' = x then v else g ! y' ! x')"
  by (auto simp add: wf_grid_def assign_def nth_list_update)

lemma mirror_less: "0 < n \<Longrightarrow> mirror n k < n"
  by (simp add: mirror_def)

lemma mirror_mirror: "k < n \<Longrightarrow> mirror n (mirror n k) = k"
  by (cases "k = 0") (auto simp add: mirror_def)

lemma mirror_eq_iff:
  assumes "j < n" "k < n"
  shows "mirror n j = k \<longleftrightarrow> j = mirror n k"
proof
  assume "mirror n j = k"
  then show "j = mirror n k" using mirror_mirror [of j n] assms by simp
next
  assume "j = mirror n k"
  then show "mirror n j = k" using mirror_mirror [of k n] assms by simp
qed

lemma norm_index_nonneg: "0 \<le> i \<Longrightarrow> i < int n \<Longrightarrow> norm_index n i = Inr (nat i)"
  by (simp add: norm_index_def)

lemma norm_index_neg: "0 \<le> i \<Longrightarrow> i < int n \<Longrightarrow> norm_index n (- i) = Inr (mirror n (nat i))"
  by (cases "i = 0") (auto simp add: norm_index_def mirror_def nat_diff_distrib')

lemma norm_index2_nonneg:
  "wf_grid n g \<Longrightarrow> 0 \<le> i \<Longrightarrow> i < int n \<Longrightarrow> 0 \<le> j \<Longrightarrow> j < int n \<Longrightarrow>
     norm_index2 g i j = Inr (nat i, nat j)"
  by (simp add: norm_index2_def wf_grid_def norm_index_nonneg)

lemma norm_index2_neg:
  assumes "wf_grid n g" "0 \<le> i" "i < int n" "0 \<le> j" "j < int n"
  shows "norm_index2 g (- i) (- j) = Inr (mirror n (nat i), mirror n (nat j))"
proof -
  have n: "0 < n" using assms by linarith
  have len: "length g = n" "length (g ! mirror n (nat i)) = n"
    using assms(1) mirror_less [OF n] by (auto simp add: wf_grid_def)
  show ?thesis
    using assms by (simp add: norm_index2_def len norm_index_neg)
qed

lemma store_nonneg:
  "wf_grid n (pixels s) \<Longrightarrow> 0 \<le> i \<Longrightarrow> i < int n \<Longrightarrow> 0 \<le> j \<Longrightarrow> j < int n \<Longrightarrow>
     store s i j v = Inr \<lparr>pixels = assign (pixels s) (nat i) (nat j) v,
                         written = written s @ [(nat i, nat j)]\<rparr>"
  by (simp add: store_def norm_index2_nonneg)

lemma store_neg:
  "wf_grid n (pixels s) \<Longrightarrow> 0 \<le> i \<Longrightarrow> i < int n \<Longrightarrow> 0 \<le> j \<Longrightarrow> j < int n \<Longrightarrow>
     store s (- i) (- j) v =
       Inr \<lparr>pixels = assign (pixels s) (mirror n (nat i)) (mirror n (nat j)) v,
            written = written s @ [(mirror n (nat i), mirror n (nat j))]\<rparr>"
  by (simp add: store_def norm_index2_neg)

lemma below_axis_iff:
  "0 < res \<Longrightarrow>
     (- 2 + (2 - (- 2)) * real_of_int ypixel / real_of_int res < 0) \<longleftrightarrow> 2 * ypixel < res"
  by (simp add: field_simps) linarith

lemma pixel_body_skip:
  "0 < res \<Longrightarrow> 2 * ypixel < res \<Longrightarrow> pixel_body c r max_iter res xpixel ypixel s = Inr s"
  using below_axis_iff [of res ypixel] by (simp add: pixel_body_def Let_def)

lemma start_point: "complex_of_real x + \<i> * complex_of_real y = Complex x y"
  by (simp add: Complex_eq)

lemma pixel_body_value:
  assumes "0 \<le> xpixel" "xpixel < res" "0 \<le> ypixel" "ypixel < res" "\<not> 2 * ypixel < res"
    and "wf_grid (nat res) (pixels s)"
  shows "pixel_body c r max_iter res xpixel ypixel s =
           Inr \<lparr>pixels = assign (assign (pixels s) (nat ypixel) (nat xpixel)
                     (real_of_int (checkz (Complex (- 2 + 4 * real_of_int xpixel / real_of_int res)
                        (- 2 + 4 * real_of_int ypixel / real_of_int res)) c r max_iter)))
                   (mirror (nat res) (nat ypixel)) (mirror (nat res) (nat xpixel))
                     (real_of_int (checkz (Complex (- 2 + 4 * real_of_int xpixel / real_of_int res)
                        (- 2 + 4 * real_of_int ypixel / real_of_int res)) c r max_iter)),
                written = written s @ cells_of res xpixel ypixel\<rparr>"
proof -
  have res: "0 < res" using assms by linarith
  have above: "\<not> (- 2 + (2 - (- 2)) * real_of_int ypixel / real_of_int res < 0)"
    using below_axis_iff [OF res, of ypixel] assms(5) by simp
  define v where "v = real_of_int (checkz (Complex (- 2 + 4 * real_of_int xpixel / real_of_int res)
                        (- 2 + 4 * real_of_int ypixel / real_of_int res)) c r max_iter)"
  have z: "complex_of_real (- 2 + (2 - (- 2)) * real_of_int xpixel / real_of_int res)
      + \<i> * complex_of_real (- 2 + (2 - (- 2)) * real_of_int ypixel / real_of_int res) =
      Complex (- 2 + 4 * real_of_int xpixel / real_of_int res)
              (- 2 + 4 * real_of_int ypixel / real_of_int res)"
    unfolding start_point by simp
  define s1 where "s1 = \<lparr>pixels = assign (pixels s) (nat ypixel) (nat xpixel) v,
                         written = written s @ [(nat ypixel, nat xpixel)]\<rparr>"
  have b: "xpixel < int (nat res)" "ypixel < int (nat res)" using assms by auto
  have one: "store s ypixel xpixel v = Inr s1"
    unfolding s1_def using store_nonneg [OF assms(6) assms(3) b(2) assms(1) b(1)] .
  have wf1: "wf_grid (nat res) (pixels s1)"
    by (simp add: s1_def wf_grid_assign assms(6))
  have two: "store s1 (- ypixel) (- xpixel) v =
      Inr \<lparr>pixels = assign (pixels s1) (mirror (nat res) (nat ypixel)) (mirror (nat res) (nat xpixel)) v,
           written = written s1 @ [(mirror (nat res) (nat ypixel), mirror (nat res) (nat xpixel))]\<rparr>"
    using store_neg [OF wf1 assms(3) b(2) assms(1) b(1)] .
  have "pixel_body c r max_iter res xpixel ypixel s = store s1 (- ypixel) (- xpixel) v"
    using above one unfolding pixel_body_def Let_def z v_def [symmetric] by simp
  with two show ?thesis
    using assms(5) unfolding v_def [symmetric] by (simp add: s1_def cells_of_def)
qed

lemma pixel_body_write:
  assumes "0 \<le> xpixel" "xpixel < res" "0 \<le> ypixel" "ypixel < res" "\<not> 2 * ypixel < res"
    and "wf_grid (nat res) (pixels s)"
  shows "\<exists>v. pixel_body c r max_iter res xpixel ypixel s =
           Inr \<lparr>pixels = assign (assign (pixels s) (nat ypixel) (nat xpixel) v)
                            (mirror (nat res) (nat ypixel)) (mirror (nat res) (nat xpixel)) v,
                written = written s @ cells_of res xpixel ypixel\<rparr>"
  using pixel_body_value [OF assms] by blast


lemma for_each_trace:
  assumes "I s"
    and "\<And>x s. x \<in> set xs \<Longrightarrow> I s \<Longrightarrow>
           \<exists>s'. body x s = Inr s' \<and> I s' \<and> tr s' = tr s @ cells x"
  shows "\<exists>s'. for_each body xs s = Inr s' \<and> I s' \<and> tr s' = tr s @ concat (map cells xs)"
  using assms
proof (induction xs arbitrary: s)
  case Nil
  then show ?case by simp
next
  case (Cons x xs)
  from Cons.prems(2) [of x s] Cons.prems(1)
  obtain s1 where s1: "body x s = Inr s1" "I s1" "tr s1 = tr s @ cells x" by auto
  have "\<exists>s'. for_each body xs s1 = Inr s' \<and> I s' \<and> tr s' = tr s1 @ concat (map cells xs)"
    by (rule Cons.IH [OF s1(2)]) (simp add: Cons.prems(2))
  then show ?case using s1 by auto
qed

lemma nth_assign_pair:
  assumes "wf_grid n g" "a < n" "b < n" "y < n" "x < n"
  shows "assign (assign g a b v) (mirror n a) (mirror n b) v ! y ! x =
           (if (y = a \<and> x = b) \<or> (y = mirror n a \<and> x = mirror n b) then v else g ! y ! x)"
proof -
  have n: "0 < n" using assms by simp
  have wf1: "wf_grid n (assign g a b v)" using assms(1) by (rule wf_grid_assign)
  have outer: "assign (assign g a b v) (mirror n a) (mirror n b) v ! y ! x =
      (if y = mirror n a \<and> x = mirror n b then v else assign g a b v ! y ! x)"
    by (rule nth_assign [OF wf1 mirror_less [OF n] mirror_less [OF n] assms(4,5)])
  have inner: "assign g a b v ! y ! x = (if y = a \<and> x = b then v else g ! y ! x)"
    by (rule nth_assign [OF assms(1,2,3,4,5)])
  show ?thesis unfolding outer inner by auto
qed

lemma grid_inv_assign_pair:
  assumes inv: "grid_inv n (s::canvas)" and a: "a < n" "n \<le> 2 * a" and b: "b < n"
  shows "grid_inv n \<lparr>pixels = assign (assign (pixels s) a b v) (mirror n a) (mirror n b) v,
                       written = w\<rparr>"
proof -
  let ?g = "pixels s"
  let ?g' = "assign (assign ?g a b v) (mirror n a) (mirror n b) v"
  have n: "0 < n" using a by simp
  have wf: "wf_grid n ?g" using inv unfolding grid_inv_def by blast
  have sym: "\<And>y x. y < n \<Longrightarrow> x < n \<Longrightarrow> ?g ! y ! x = ?g ! mirror n y ! mirror n x"
    using inv unfolding grid_inv_def by blast
  have row0: "\<And>x. x < n \<Longrightarrow> ?g ! 0 ! x = 0" using inv unfolding grid_inv_def by blast
  have a0: "a \<noteq> 0" "mirror n a \<noteq> 0" using a n by (auto simp add: mirror_def)
  have wf': "wf_grid n ?g'" by (intro wf_grid_assign wf)
  have sym': "?g' ! y ! x = ?g' ! mirror n y ! mirror n x" if yx: "y < n" "x < n" for y x
  proof -
    have m: "mirror n y < n" "mirror n x < n" using n by (simp_all add: mirror_less)
    have e1: "mirror n y = a \<longleftrightarrow> y = mirror n a" using mirror_eq_iff [OF yx(1) a(1)] .
    have e2: "mirror n x = b \<longleftrightarrow> x = mirror n b" using mirror_eq_iff [OF yx(2) b] .
    have e3: "mirror n y = mirror n a \<longleftrightarrow> y = a"
      using mirror_eq_iff [OF yx(1) mirror_less [OF n, of a]] mirror_mirror [OF a(1)] by simp
    have e4: "mirror n x = mirror n b \<longleftrightarrow> x = b"
      using mirror_eq_iff [OF yx(2) mirror_less [OF n, of b]] mirror_mirror [OF b] by simp
    show ?thesis
      unfolding nth_assign_pair [OF wf a(1) b yx] nth_assign_pair [OF wf a(1) b m] e1 e2 e3 e4
      using sym [OF yx] by auto
  qed
  have row0': "?g' ! 0 ! x = 0" if "x < n" for x
    unfolding nth_assign_pair [OF wf a(1) b n that] using a0 row0 [OF that] by auto
  show ?thesis unfolding grid_inv_def select_convs using wf' sym' row0' by blast
qed

lemma pixel_body_step:
  assumes "0 \<le> xpixel" "xpixel < res" "0 \<le> ypixel" "ypixel < res"
    and inv: "grid_inv (nat res) s"
  shows "\<exists>s'. pixel_body c r max_iter res xpixel ypixel s = Inr s' \<and> grid_inv (nat res) s' \<and>
              written s' = written s @ cells_of res xpixel ypixel"
proof (cases "2 * ypixel < res")
  case True
  have "0 < res" using assms by linarith
  then show ?thesis using True inv by (simp add: pixel_body_skip cells_of_def)
next
  case False
  have wf: "wf_grid (nat res) (pixels s)" using inv by (simp add: grid_inv_def)
  from pixel_body_write [OF assms(1-4) False wf, of c r max_iter]
  obtain v where v: "pixel_body c r max_iter res xpixel ypixel s =
           Inr \<lparr>pixels = assign (assign (pixels s) (nat ypixel) (nat xpixel) v)
                            (mirror (nat res) (nat ypixel)) (mirror (nat res) (nat xpixel)) v,
                written = written s @ cells_of res xpixel ypixel\<rparr>" by blast
  have "grid_inv (nat res) \<lparr>pixels = assign (assign (pixels s) (nat ypixel) (nat xpixel) v)
                            (mirror (nat res) (nat ypixel)) (mirror (nat res) (nat xpixel)) v,
                written = written s @ cells_of res xpixel ypixel\<rparr>"
    using assms(1-4) False by (intro grid_inv_assign_pair inv) auto
  with v show ?thesis by simp
qed

lemma grid_inv_zeros: "grid_inv n \<lparr>pixels = zeros n n, written = []\<rparr>"
  by (simp add: grid_inv_def wf_grid_zeros) (simp add: zeros_def mirror_def)

lemma compute_grid_inv:
  assumes "1 \<le> res"
  shows "\<exists>s. compute_grid c max_iter res = Inr s \<and> grid_inv (nat res) s \<and>
             written s = concat (map (\<lambda>xpixel. concat (map (cells_of res xpixel) [0..res - 1]))
                                 [0..res - 1])"
proof -
  let ?r = "escape_radius c"
  let ?s0 = "\<lparr>pixels = zeros (nat res) (nat res), written = []\<rparr>"
  have inner: "\<exists>s'. for_each (pixel_body c ?r max_iter res xpixel) [0..res - 1] s = Inr s' \<and>
                 grid_inv (nat res) s' \<and>
                 written s' = written s @ concat (map (cells_of res xpixel) [0..res - 1])"
    if "xpixel \<in> set [0..res - 1]" "grid_inv (nat res) s" for xpixel s
  proof (rule for_each_trace [where I = "grid_inv (nat res)" and tr = written, OF that(2)])
    fix ypixel t
    assume "ypixel \<in> set [0..res - 1]" "grid_inv (nat res) t"
    then show "\<exists>s'. pixel_body c ?r max_iter res xpixel ypixel t = Inr s' \<and>
        grid_inv (nat res) s' \<and> written s' = written t @ cells_of res xpixel ypixel"
      using that(1) by (intro pixel_body_step) auto
  qed
  have "\<exists>s'. for_each (\<lambda>xpixel. for_each (pixel_body c ?r max_iter res xpixel) [0..res - 1])
                [0..res - 1] ?s0 = Inr s' \<and> grid_inv (nat res) s' \<and>
              written s' = written ?s0 @
                concat (map (\<lambda>xpixel. concat (map (cells_of res xpixel) [0..res - 1])) [0..res - 1])"
    by (rule for_each_trace [where I = "grid_inv (nat res)" and tr = written, OF grid_inv_zeros])
       (rule inner)
  then show ?thesis using assms by (simp add: compute_grid_def Let_def)
qed

lemma distinct_concat_map:
  assumes "distinct xs"
    and "\<And>x. x \<in> set xs \<Longrightarrow> distinct (g x)"
    and "\<And>x y. x \<in> set xs \<Longrightarrow> y \<in> set xs \<Longrightarrow> x \<noteq> y \<Longrightarrow> set (g x) \<inter> set (g y) = {}"
  shows "distinct (concat (map g xs))"
  using assms
proof (induction xs)
  case Nil
  then show ?case by simp
next
  case (Cons x xs)
  have tail: "distinct (concat (map g xs))"
    using Cons.prems by (intro Cons.IH) auto
  have "set (g x) \<inter> set (g y) = {}" if "y \<in> set xs" for y
    using Cons.prems(1) Cons.prems(3) [of x y] that by auto
  then have "set (g x) \<inter> set (concat (map g xs)) = {}" by auto
  with tail Cons.prems(2) [of x] show ?case by simp
qed

lemma cells_of_origin:
  assumes "0 \<le> xpixel" "xpixel < res" "0 \<le> ypixel" "ypixel < res"
    and "(y, x) \<in> set (filter (off_middle res) (cells_of res xpixel ypixel))"
  shows "xpixel = int (if res < 2 * int y then x else mirror (nat res) x) \<and>
         ypixel = int (if res < 2 * int y then y else mirror (nat res) y)"
proof -
  have big: "res < 2 * ypixel"
    using assms by (auto simp add: cells_of_def off_middle_def mirror_def split: if_splits)
  have my: "mirror (nat res) (nat ypixel) = nat res - nat ypixel"
    using assms big by (simp add: mirror_def)
  from assms(5) big consider "y = nat ypixel" "x = nat xpixel"
    | "y = mirror (nat res) (nat ypixel)" "x = mirror (nat res) (nat xpixel)"
    by (auto simp add: cells_of_def split: if_splits)
  then show ?thesis
  proof cases
    case 1
    then show ?thesis using assms big by simp
  next
    case 2
    have "int y = res - ypixel" unfolding 2(1) my using assms(3,4) by arith
    then have "\<not> res < 2 * int y" using big by simp
    moreover have "mirror (nat res) x = nat xpixel"
      unfolding 2 using assms by (intro mirror_mirror) simp
    moreover have "mirror (nat res) y = nat ypixel"
      unfolding 2 using assms by (intro mirror_mirror) simp
    ultimately show ?thesis using assms by simp
  qed
qed

lemma cells_of_distinct:
  assumes "0 \<le> ypixel" "ypixel < res"
  shows "distinct (filter (off_middle res) (cells_of res xpixel ypixel))"
proof (cases "res < 2 * ypixel")
  case True
  then have "mirror (nat res) (nat ypixel) = nat res - nat ypixel"
    using assms by (simp add: mirror_def)
  then have "mirror (nat res) (nat ypixel) \<noteq> nat ypixel" using True assms by linarith
  then show ?thesis by (simp add: cells_of_def)
next
  case False
  then have "filter (off_middle res) (cells_of res xpixel ypixel) = []"
    using assms by (cases "2 * ypixel < res")
      (auto simp add: cells_of_def off_middle_def mirror_def)
  then show ?thesis by simp
qed

lemma written_off_middle_distinct:
  assumes "1 \<le> res"
  shows "distinct (filter (off_middle res)
           (concat (map (\<lambda>xpixel. concat (map (cells_of res xpixel) [0..res - 1])) [0..res - 1])))"
proof -
  let ?ys = "[0..res - 1]"
  let ?c = "\<lambda>xpixel ypixel. filter (off_middle res) (cells_of res xpixel ypixel)"
  let ?col = "\<lambda>xpixel. concat (map (?c xpixel) ?ys)"
  have flat: "filter (off_middle res)
           (concat (map (\<lambda>xpixel. concat (map (cells_of res xpixel) ?ys)) ?ys)) =
        concat (map ?col ?ys)"
    by (simp add: filter_concat comp_def)
  have col_mem: "\<exists>ypixel\<in>set ?ys. cell \<in> set (?c xpixel ypixel)" if "cell \<in> set (?col xpixel)"
    for cell xpixel
    using that by auto
  have col_distinct: "distinct (?col xpixel)" if x: "xpixel \<in> set ?ys" for xpixel
  proof (rule distinct_concat_map)
    show "distinct ?ys" by simp
  next
    fix ypixel assume "ypixel \<in> set ?ys"
    then show "distinct (?c xpixel ypixel)" by (intro cells_of_distinct) auto
  next
    fix y1 y2 assume y: "y1 \<in> set ?ys" "y2 \<in> set ?ys" "y1 \<noteq> y2"
    show "set (?c xpixel y1) \<inter> set (?c xpixel y2) = {}"
    proof (rule ccontr)
      assume "set (?c xpixel y1) \<inter> set (?c xpixel y2) \<noteq> {}"
      then obtain a b where ab: "(a, b) \<in> set (?c xpixel y1)" "(a, b) \<in> set (?c xpixel y2)"
        by auto
      have "y1 = int (if res < 2 * int a then a else mirror (nat res) a)"
        using cells_of_origin [of xpixel res y1 a b] x y(1) ab(1) by auto
      moreover have "y2 = int (if res < 2 * int a then a else mirror (nat res) a)"
        using cells_of_origin [of xpixel res y2 a b] x y(2) ab(2) by auto
      ultimately show False using y(3) by simp
    qed
  qed
  have "distinct (concat (map ?col ?ys))"
  proof (rule distinct_concat_map)
    show "distinct ?ys" by simp
  next
    fix xpixel assume "xpixel \<in> set ?ys"
    then show "distinct (?col xpixel)" by (rule col_distinct)
  next
    fix x1 x2 assume x: "x1 \<in> set ?ys" "x2 \<in> set ?ys" "x1 \<noteq> x2"
    show "set (?col x1) \<inter> set (?col x2) = {}"
    proof (rule ccontr)
      assume "set (?col x1) \<inter> set (?col x2) \<noteq> {}"
      then obtain cell where "cell \<in> set (?col x1)" "cell \<in> set (?col x2)" by blast
      then obtain y1 y2 where y: "y1 \<in> set ?ys" "cell \<in> set (?c x1 y1)"
          "y2 \<in> set ?ys" "cell \<in> set (?c x2 y2)"
        using col_mem by blast
      obtain a b where cell: "cell = (a, b)" by (cases cell)
      have "x1 = int (if res < 2 * int a then b else mirror (nat res) b)"
        using cells_of_origin [of x1 res y1 a b] x(1) y(1,2) cell by auto
      moreover have "x2 = int (if res < 2 * int a then b else mirror (nat res) b)"
        using cells_of_origin [of x2 res y2 a b] x(2) y(3,4) cell by auto
      ultimately show False using x(3) by simp
    qed
  qed
  then show ?thesis by (simp only: flat)
qed

lemma odd_off_middle: "odd res \<Longrightarrow> filter (off_middle res) ws = ws"
  by (rule filter_True) (auto simp add: off_middle_def)

lemma count_list_concat_map:
  "count_list (concat (map g xs)) c = sum_list (map (\<lambda>x. count_list (g x) c) xs)"
  by (induction xs) simp_all

lemma sum_list_single:
  fixes g :: "'a \<Rightarrow> nat"
  assumes "distinct xs" "a \<in> set xs" "\<And>x. x \<in> set xs \<Longrightarrow> x \<noteq> a \<Longrightarrow> g x = 0"
  shows "sum_list (map g xs) = g a"
  using assms
proof (induction xs)
  case Nil
  then show ?case by simp
next
  case (Cons x xs)
  show ?case
  proof (cases "x = a")
    case True
    then have "a \<notin> set xs" using Cons.prems(1) by simp
    then have "\<And>y. y \<in> set xs \<Longrightarrow> g y = 0" using Cons.prems(3) by auto
    then have "sum_list (map g xs) = 0" by (simp add: sum_list_eq_0_iff)
    with True show ?thesis by simp
  next
    case False
    then have "g x = 0" using Cons.prems(3) by simp
    moreover have "sum_list (map g xs) = g a"
      using Cons.prems False by (intro Cons.IH) auto
    ultimately show ?thesis by simp
  qed
qed

lemma middle_row_count:
  assumes res: "1 \<le> res" "even res" and x: "x < nat res"
  shows "count_list
           (concat (map (\<lambda>xpixel. concat (map (cells_of res xpixel) [0..res - 1])) [0..res - 1]))
           (nat res div 2, x) = 2"
proof -
  let ?n = "nat res"
  let ?ys = "[0..res - 1]"
  define h where "h = res div 2"
  have res2: "res = 2 * h" using res(2) by (auto simp add: h_def)
  have h: "1 \<le> h" "h < res" using res(1) res2 by auto
  have hn: "nat h = ?n div 2" "nat h < ?n" using h res2 by auto
  have mh: "mirror ?n (nat h) = nat h" using h res2 by (simp add: mirror_def)
  let ?c = "(nat h, x)"
  have other: "count_list (cells_of res xpixel ypixel) ?c = 0"
    if "ypixel \<in> set ?ys" "ypixel \<noteq> h" for xpixel ypixel
  proof (cases "2 * ypixel < res")
    case True
    then show ?thesis by (simp add: cells_of_def)
  next
    case False
    with that res2 have big: "h < ypixel" "ypixel < res" by auto
    then have "nat ypixel \<noteq> nat h" using h by auto
    moreover have "mirror ?n (nat ypixel) = ?n - nat ypixel" using big h by (simp add: mirror_def)
    then have "mirror ?n (nat ypixel) \<noteq> nat h" using big h res2 by auto
    ultimately show ?thesis using False by (simp add: cells_of_def)
  qed
  have middle: "count_list (cells_of res xpixel h) ?c =
      (if xpixel = int x then 1 else 0) + (if xpixel = int (mirror ?n x) then 1 else 0)"
    if xp: "xpixel \<in> set ?ys" for xpixel
  proof -
    have b: "nat xpixel < ?n" using xp by auto
    have "mirror ?n (nat xpixel) = x \<longleftrightarrow> nat xpixel = mirror ?n x"
      by (rule mirror_eq_iff [OF b x])
    moreover have "nat xpixel = k \<longleftrightarrow> xpixel = int k" for k using xp by auto
    moreover have "\<not> 2 * h < res" using res2 by simp
    then have "cells_of res xpixel h = [(nat h, nat xpixel), (nat h, mirror ?n (nat xpixel))]"
      by (simp add: cells_of_def mh)
    ultimately show ?thesis by simp
  qed
  have hys: "h \<in> set ?ys" using h by simp
  have col: "count_list (concat (map (cells_of res xpixel) ?ys)) ?c =
      (if xpixel = int x then 1 else 0) + (if xpixel = int (mirror ?n x) then 1 else 0)"
    if xp: "xpixel \<in> set ?ys" for xpixel
  proof -
    have "sum_list (map (\<lambda>ypixel. count_list (cells_of res xpixel ypixel) ?c) ?ys) =
        count_list (cells_of res xpixel h) ?c"
      by (rule sum_list_single [OF _ hys]) (simp_all add: other)
    then show ?thesis by (simp only: count_list_concat_map middle [OF xp])
  qed
  have n0: "0 < ?n" using res(1) by simp
  have in1: "int x \<in> set ?ys" using x by auto
  have in2: "int (mirror ?n x) \<in> set ?ys" using mirror_less [OF n0, of x] by auto
  have s1: "sum_list (map (\<lambda>xpixel. if xpixel = int x then 1 else 0) ?ys) = (1::nat)"
    using sum_list_single [OF _ in1, of "\<lambda>xpixel. if xpixel = int x then 1 else 0"] by simp
  have s2: "sum_list (map (\<lambda>xpixel. if xpixel = int (mirror ?n x) then 1 else 0) ?ys) = (1::nat)"
    using sum_list_single [OF _ in2, of "\<lambda>xpixel. if xpixel = int (mirror ?n x) then 1 else 0"]
    by simp
  have "count_list (concat (map (\<lambda>xpixel. concat (map (cells_of res xpixel) ?ys)) ?ys)) ?c =
      sum_list (map (\<lambda>xpixel. count_list (concat (map (cells_of res xpixel) ?ys)) ?c) ?ys)"
    by (rule count_list_concat_map)
  also have "\<dots> = sum_list (map (\<lambda>xpixel. (if xpixel = int x then 1 else 0) +
      (if xpixel = int (mirror ?n x) then 1 else 0)) ?ys)"
    by (rule arg_cong [where f = sum_list], rule map_cong [OF refl]) (rule col)
  also have "\<dots> = 1 + 1" unfolding sum_list_addf s1 s2 ..
  finally show ?thesis unfolding hn(1) by simp
qed

lemma cells_of_row:
  assumes "0 \<le> ypixel" "ypixel < res" "cell \<in> set (cells_of res xpixel ypixel)"
  shows "fst cell \<noteq> 0"
proof -
  have big: "res \<le> 2 * ypixel" using assms(3) by (auto simp add: cells_of_def split: if_splits)
  then have "nat ypixel \<noteq> 0" "mirror (nat res) (nat ypixel) \<noteq> 0"
    using assms(1,2) by (auto simp add: mirror_def)
  then show ?thesis using assms(3) big by (auto simp add: cells_of_def split: if_splits)
qed

lemma written_res_two:
  "map_sum id written (compute_grid 0 10 2) = Inr [(1, 0), (1, 0), (1, 1), (1, 1)]"
proof -
  have h: "(1::int) \<le> 2" by simp
  from compute_grid_inv [OF h, of 0 10]
  obtain s where s: "compute_grid 0 10 2 = Inr s"
      "written s = concat (map (\<lambda>xpixel. concat (map (cells_of 2 xpixel) [0..2 - 1])) [0..2 - 1])"
    by blast
  have "[0..2 - 1] = [0, 1::int]" by (simp add: upto.simps)
  then have "written s = [(1, 0), (1, 0), (1, 1), (1, 1)]"
    unfolding s(2) by (simp add: cells_of_def mirror_def)
  with s(1) show ?thesis by simp
qed

lemma checkz_loop_Complex:
  "checkz_loop (Complex a b) (Complex p q) r m n =
     (if n \<le> m
      then (if r < sqrt ((a * a - b * b + p)\<^sup>2 + (2 * a * b + q)\<^sup>2) then n
            else checkz_loop (Complex (a * a - b * b + p) (2 * a * b + q)) (Complex p q) r m (n + 1))
      else 0)"
proof -
  have "f (Complex a b) (Complex p q) = Complex (a * a - b * b + p) (2 * a * b + q)"
    by (simp add: f_def complex_eq_iff)
  then show ?thesis
    by (simp add: checkz_loop.simps [of "Complex a b" "Complex p q" r m n] complex_norm)
qed

lemma zero_Complex: "(0::complex) = Complex 0 0"
  by (simp add: complex_eq_iff)

lemma checkz_values:
  "checkz (Complex (- 2) 0) (Complex 0 0) 1 10 = 1"
  "checkz (Complex (- 1) 0) (Complex 0 0) 1 10 = 0"
  "checkz (Complex 0 0) (Complex 0 0) 1 10 = 0"
  "checkz (Complex 1 0) (Complex 0 0) 1 10 = 0"
  "checkz (Complex (- 2) 1) (Complex 0 0) 1 10 = 1"
  "checkz (Complex (- 1) 1) (Complex 0 0) 1 10 = 1"
  "checkz (Complex 0 1) (Complex 0 0) 1 10 = 0"
  "checkz (Complex 1 1) (Complex 0 0) 1 10 = 1"
  by (simp_all add: checkz_def checkz_loop_Complex)

lemma upto_four: "[0..4 - 1] = [0, 1, 2, 3::int]"
  by (simp add: upto.simps)

lemma zeros_four: "zeros 4 4 = [[0, 0, 0, 0], [0, 0, 0, 0], [0, 0, 0, 0], [0, 0, 0, 0]]"
  by (simp add: zeros_def eval_nat_numeral)

lemma wf_zeros_four: "wf_grid 4 (zeros 4 4)"
  by (rule wf_grid_zeros)

lemma column_skip:
  "pixel_body c r max_iter 4 xpixel 0 s = Inr s" "pixel_body c r max_iter 4 xpixel 1 s = Inr s"
  by (simp_all add: pixel_body_skip)

lemma grid_res_four:
  "compute_grid (Complex 0 0) 10 4 =
     Inr \<lparr>pixels = [[0, 0, 0, 0], [1, 1, 0, 1], [1, 0, 0, 0], [1, 1, 0, 1]],
          written = [(2, 0), (2, 0), (3, 0), (1, 0), (2, 1), (2, 3), (3, 1), (1, 3),
                     (2, 2), (2, 2), (3, 2), (1, 2), (2, 3), (2, 1), (3, 3), (1, 1)]\<rparr>"
proof -
  have r: "escape_radius (Complex 0 0) = 1"
    using escape_radius_zero by (simp add: zero_Complex [symmetric])
  show ?thesis
    unfolding compute_grid_def upto_four r
    apply (simp add: column_skip pixel_body_value wf_grid_assign wf_zeros_four
        checkz_values cells_of_def mirror_def)
    apply (simp add: assign_def zeros_def eval_nat_numeral)
    done
qed

lemma grid_res_four_zero:
  "compute_grid 0 10 4 =
     Inr \<lparr>pixels = [[0, 0, 0, 0], [1, 1, 0, 1], [1, 0, 0, 0], [1, 1, 0, 1]],
          written = [(2, 0), (2, 0), (3, 0), (1, 0), (2, 1), (2, 3), (3, 1), (1, 3),
                     (2, 2), (2, 2), (3, 2), (1, 2), (2, 3), (2, 1), (3, 3), (1, 1)]\<rparr>"
  using grid_res_four by (simp only: zero_Complex [symmetric])

section \<open>Lemmas on the colour stage\<close>

lemma py_int_nonneg: "0 \<le> x \<Longrightarrow> py_int x = \<lfloor>x\<rfloor>"
  by (simp add: py_int_def)

lemma hsv_to_rgb_period:
  assumes "0 \<le> h"
  shows "hsv_to_rgb (Fin (frac h)) s v = hsv_to_rgb (Fin h) s v"
proof -
  have six: "frac h * 6 = h * 6 - real_of_int (6 * \<lfloor>h\<rfloor>)"
    by (simp add: frac_def algebra_simps)
  have "0 \<le> frac h * 6" by simp
  then have "py_int (frac h * 6) = \<lfloor>frac h * 6\<rfloor>" by (rule py_int_nonneg)
  also have "\<dots> = \<lfloor>h * 6\<rfloor> - 6 * \<lfloor>h\<rfloor>" unfolding six by (rule floor_diff_of_int)
  also have "\<lfloor>h * 6\<rfloor> = py_int (h * 6)" using assms by (simp add: py_int_nonneg)
  finally have i: "py_int (frac h * 6) = py_int (h * 6) - 6 * \<lfloor>h\<rfloor>" .
  have f: "frac h * 6 - real_of_int (py_int (frac h * 6)) = h * 6 - real_of_int (py_int (h * 6))"
    unfolding i by (simp add: frac_def algebra_simps)
  have m: "py_int (frac h * 6) mod 6 = py_int (h * 6) mod 6"
    unfolding i by (simp add: mod_diff_eq [symmetric])
  show ?thesis
    unfolding hsv_to_rgb_def Let_def npfloat.case f m by (rule refl)
qed

lemma frac_minus_one: "frac (x - 1) = frac (x::real)"
  by (simp add: frac_def)

lemma fold_max_zero: "\<forall>x\<in>set vs. x = 0 \<Longrightarrow> fold max vs (0::real) = 0"
  by (induction vs) simp_all

lemma amax_zeros: "0 < n \<Longrightarrow> amax (zeros n n) = Inr 0"
proof -
  assume "0 < n"
  then obtain k where n: "n = Suc k" by (cases n) auto
  have "concat (zeros n n) = 0 # (replicate k 0 @ concat (replicate k (replicate n 0)))"
    by (simp add: zeros_def n)
  moreover have "fold max (replicate k 0 @ concat (replicate k (replicate n 0))) (0::real) = 0"
    by (rule fold_max_zero) auto
  ultimately show ?thesis by (simp add: amax_def)
qed

lemma normalise_zeros: "map (map (\<lambda>v. np_divide v 0)) (zeros n n) = replicate n (replicate n NaN)"
  by (simp add: zeros_def np_divide_def)

lemma colour_body_nan:
  "0 < n \<Longrightarrow> colour_body hue_offset (replicate n (replicate n NaN)) 0 0 cp = Inl ValueError"
  by (simp add: colour_body_def getitem_def norm_index2_def norm_index_def colour_pixel_def
      hsv_to_rgb_def)

lemma colour_stage_zeros:
  assumes "1 \<le> res"
  shows "colour_stage hue_offset res (zeros (nat res) (nat res)) = Inl ValueError"
proof -
  have n: "0 < nat res" using assms by simp
  have range: "[0..res - 1] = 0 # [1..res - 1]" using assms by (simp add: upto_rec1)
  show ?thesis
    unfolding colour_stage_def amax_zeros [OF n] sum.case Let_def normalise_zeros range
      for_each.simps colour_body_nan [OF n]
    by simp
qed

lemma compute_grid_res_one: "compute_grid c max_iter 1 = Inr \<lparr>pixels = [[0]], written = []\<rparr>"
  by (simp add: compute_grid_def pixel_body_def zeros_def)

lemma colour_pixel_value:
  "colour_pixel hue_offset (Fin 0) = Inr (0, 0, 0) \<and>
   (0 < v \<and> 0 \<le> hue_offset \<longrightarrow>
      colour_pixel hue_offset (Fin v) = hsv_to_rgb (Fin (frac (v + hue_offset))) 1 (1 / 2))"
proof
  show "colour_pixel hue_offset (Fin 0) = Inr (0, 0, 0)"
    by (simp add: colour_pixel_def)
next
  show "0 < v \<and> 0 \<le> hue_offset \<longrightarrow>
      colour_pixel hue_offset (Fin v) = hsv_to_rgb (Fin (frac (v + hue_offset))) 1 (1 / 2)"
  proof
    assume h: "0 < v \<and> 0 \<le> hue_offset"
    show "colour_pixel hue_offset (Fin v) = hsv_to_rgb (Fin (frac (v + hue_offset))) 1 (1 / 2)"
    proof (cases "1 < v + hue_offset")
      case True
      then have "colour_pixel hue_offset (Fin v) = hsv_to_rgb (Fin (v + hue_offset - 1)) 1 (1 / 2)"
        using h by (simp add: colour_pixel_def)
      also have "\<dots> = hsv_to_rgb (Fin (frac (v + hue_offset - 1))) 1 (1 / 2)"
        using True by (intro hsv_to_rgb_period [symmetric]) simp
      finally show ?thesis by (simp only: frac_minus_one)
    next
      case False
      then have "colour_pixel hue_offset (Fin v) = hsv_to_rgb (Fin (v + hue_offset)) 1 (1 / 2)"
        using h by (simp add: colour_pixel_def)
      also have "\<dots> = hsv_to_rgb (Fin (frac (v + hue_offset))) 1 (1 / 2)"
        using h by (intro hsv_to_rgb_period [symmetric]) simp
      finally show ?thesis .
    qed
  qed
qed

lemma for_each_establish:
  assumes "I s"
    and "\<And>x s. x \<in> set xs \<Longrightarrow> I s \<Longrightarrow>
           \<exists>s'. body x s = Inr s' \<and> I s' \<and> (\<forall>c\<in>cells x. good c s') \<and>
                (\<forall>c. good c s \<longrightarrow> good c s')"
  shows "\<exists>s'. for_each body xs s = Inr s' \<and> I s' \<and> (\<forall>x\<in>set xs. \<forall>c\<in>cells x. good c s') \<and>
              (\<forall>c. good c s \<longrightarrow> good c s')"
  using assms
proof (induction xs arbitrary: s)
  case Nil
  then show ?case by simp
next
  case (Cons x xs)
  from Cons.prems(2) [of x s] Cons.prems(1)
  obtain s1 where s1: "body x s = Inr s1" "I s1" "\<forall>c\<in>cells x. good c s1"
    "\<forall>c. good c s \<longrightarrow> good c s1" by auto
  have "\<exists>s'. for_each body xs s1 = Inr s' \<and> I s' \<and> (\<forall>x\<in>set xs. \<forall>c\<in>cells x. good c s') \<and>
      (\<forall>c. good c s1 \<longrightarrow> good c s')"
    by (rule Cons.IH [OF s1(2)]) (simp add: Cons.prems(2))
  then obtain s' where s': "for_each body xs s1 = Inr s'" "I s'"
    "\<forall>x\<in>set xs. \<forall>c\<in>cells x. good c s'" "\<forall>c. good c s1 \<longrightarrow> good c s'" by blast
  have "for_each body (x # xs) s = Inr s'" using s1(1) s'(1) by simp
  moreover have "\<forall>y\<in>set (x # xs). \<forall>c\<in>cells y. good c s'" using s1(3) s'(3,4) by auto
  moreover have "\<forall>c. good c s \<longrightarrow> good c s'" using s1(4) s'(4) by blast
  ultimately show ?case using s'(2) by blast
qed

lemma getitem_nonneg:
  "wf_grid n g \<Longrightarrow> 0 \<le> i \<Longrightarrow> i < int n \<Longrightarrow> 0 \<le> j \<Longrightarrow> j < int n \<Longrightarrow>
     getitem g i j = Inr (g ! nat i ! nat j)"
  by (simp add: getitem_def norm_index2_nonneg)

lemma setitem_nonneg:
  "wf_grid n g \<Longrightarrow> 0 \<le> i \<Longrightarrow> i < int n \<Longrightarrow> 0 \<le> j \<Longrightarrow> j < int n \<Longrightarrow>
     setitem g i j v = Inr (assign g (nat i) (nat j) v)"
  by (simp add: setitem_def norm_index2_nonneg)

lemma hsv_to_rgb_finite: "\<exists>col. hsv_to_rgb (Fin h) s v = Inr col"
  by (simp add: hsv_to_rgb_def Let_def)

lemma colour_pixel_finite: "\<exists>col. colour_pixel hue_offset (Fin v) = Inr col"
  using hsv_to_rgb_finite by (simp add: colour_pixel_def Let_def)

lemma wf_grid_normalised:
  "wf_grid n g \<Longrightarrow> wf_grid n (map (map h) g)"
  by (simp add: wf_grid_def)

lemma nth_normalised:
  "wf_grid n g \<Longrightarrow> y < n \<Longrightarrow> x < n \<Longrightarrow> map (map h) g ! y ! x = h (g ! y ! x)"
  by (simp add: wf_grid_def)

lemma colour_stage_cells:
  assumes res: "1 \<le> res" and wf: "wf_grid (nat res) g" and m: "amax g = Inr m" "m \<noteq> 0"
  shows "\<exists>img. colour_stage hue_offset res g = Inr img \<and> wf_grid (nat res) img \<and>
           (\<forall>y<nat res. \<forall>x<nat res.
              colour_pixel hue_offset (Fin (g ! y ! x / m)) = Inr (img ! y ! x))"
proof -
  let ?n = "nat res"
  let ?ys = "[0..res - 1]"
  let ?norm = "map (map (\<lambda>v. np_divide v m)) g"
  let ?img0 = "replicate ?n (replicate ?n ((0, 0, 0)::rgb))"
  define good :: "nat \<times> nat \<Rightarrow> rgb list list \<Rightarrow> bool" where
    "good = (\<lambda>(y, x) img. colour_pixel hue_offset (Fin (g ! y ! x / m)) = Inr (img ! y ! x))"
  have wfn: "wf_grid ?n ?norm" using wf by (rule wf_grid_normalised)
  have wf0: "wf_grid ?n ?img0" by (simp add: wf_grid_def)
  have body: "\<exists>s'. colour_body hue_offset ?norm xpixel ypixel s = Inr s' \<and> wf_grid ?n s' \<and>
        (\<forall>c\<in>{(nat ypixel, nat xpixel)}. good c s') \<and> (\<forall>c. good c s \<longrightarrow> good c s')"
    if xp: "xpixel \<in> set ?ys" and yp: "ypixel \<in> set ?ys" and s: "wf_grid ?n s"
    for xpixel ypixel s
  proof -
    have b: "0 \<le> ypixel" "ypixel < int ?n" "0 \<le> xpixel" "xpixel < int ?n" "nat ypixel < ?n"
      "nat xpixel < ?n" using xp yp by auto
    have "getitem ?norm ypixel xpixel = Inr (?norm ! nat ypixel ! nat xpixel)"
      by (rule getitem_nonneg [OF wfn b(1-4)])
    also have "?norm ! nat ypixel ! nat xpixel = np_divide (g ! nat ypixel ! nat xpixel) m"
      by (rule nth_normalised [OF wf b(5,6)])
    also have "\<dots> = Fin (g ! nat ypixel ! nat xpixel / m)" using m(2) by (simp add: np_divide_def)
    finally have get: "getitem ?norm ypixel xpixel = Inr (Fin (g ! nat ypixel ! nat xpixel / m))" .
    obtain col where col: "colour_pixel hue_offset (Fin (g ! nat ypixel ! nat xpixel / m)) = Inr col"
      using colour_pixel_finite by blast
    have set: "setitem s ypixel xpixel col = Inr (assign s (nat ypixel) (nat xpixel) col)"
      by (rule setitem_nonneg [OF s b(1-4)])
    have run: "colour_body hue_offset ?norm xpixel ypixel s =
        Inr (assign s (nat ypixel) (nat xpixel) col)"
      by (simp add: colour_body_def get col set)
    have wf': "wf_grid ?n (assign s (nat ypixel) (nat xpixel) col)"
      using s by (rule wf_grid_assign)
    have here: "good (nat ypixel, nat xpixel) (assign s (nat ypixel) (nat xpixel) col)"
      unfolding good_def using col nth_assign [OF s b(5,6) b(5,6), of col] by simp
    have keep: "good c (assign s (nat ypixel) (nat xpixel) col)" if "good c s" for c
    proof (cases c)
      case (Pair y x)
      show ?thesis
      proof (cases "y < ?n \<and> x < ?n")
        case True
        then show ?thesis
          using that col nth_assign [OF s b(5,6), of y x col] unfolding good_def Pair by auto
      next
        case False
        have "assign s (nat ypixel) (nat xpixel) col ! y ! x = s ! y ! x"
        proof (cases "y = nat ypixel")
          case True
          with False b have "x \<noteq> nat xpixel" by auto
          then show ?thesis using True s b by (simp add: assign_def wf_grid_def)
        next
          case False
          then show ?thesis by (simp add: assign_def)
        qed
        then show ?thesis using that unfolding good_def Pair by simp
      qed
    qed
    from run wf' here keep show ?thesis by auto
  qed
  have inner: "\<exists>s'. for_each (colour_body hue_offset ?norm xpixel) ?ys s = Inr s' \<and> wf_grid ?n s' \<and>
        (\<forall>c\<in>(\<lambda>ypixel. (nat ypixel, nat xpixel)) ` set ?ys. good c s') \<and>
        (\<forall>c. good c s \<longrightarrow> good c s')"
    if xp: "xpixel \<in> set ?ys" and s: "wf_grid ?n s" for xpixel s
  proof -
    have "\<exists>s'. for_each (colour_body hue_offset ?norm xpixel) ?ys s = Inr s' \<and> wf_grid ?n s' \<and>
        (\<forall>ypixel\<in>set ?ys. \<forall>c\<in>{(nat ypixel, nat xpixel)}. good c s') \<and>
        (\<forall>c. good c s \<longrightarrow> good c s')"
      by (rule for_each_establish [where I = "wf_grid ?n", OF s]) (rule body [OF xp])
    then show ?thesis by auto
  qed
  have "\<exists>s'. for_each (\<lambda>xpixel. for_each (colour_body hue_offset ?norm xpixel) ?ys) ?ys ?img0 = Inr s' \<and>
        wf_grid ?n s' \<and>
        (\<forall>xpixel\<in>set ?ys. \<forall>c\<in>(\<lambda>ypixel. (nat ypixel, nat xpixel)) ` set ?ys. good c s') \<and>
        (\<forall>c. good c ?img0 \<longrightarrow> good c s')"
    by (rule for_each_establish [where I = "wf_grid ?n", OF wf0]) (rule inner)
  then obtain img where img:
      "for_each (\<lambda>xpixel. for_each (colour_body hue_offset ?norm xpixel) ?ys) ?ys ?img0 = Inr img"
      "wf_grid ?n img"
      "\<forall>xpixel\<in>set ?ys. \<forall>c\<in>(\<lambda>ypixel. (nat ypixel, nat xpixel)) ` set ?ys. good c img"
    by blast
  have run: "colour_stage hue_offset res g = Inr img"
    using img(1) m(1) by (simp add: colour_stage_def Let_def)
  have "colour_pixel hue_offset (Fin (g ! y ! x / m)) = Inr (img ! y ! x)"
    if "y < ?n" "x < ?n" for y x
  proof -
    have "int x \<in> set ?ys" "int y \<in> set ?ys" using that by auto
    with img(3) have "good (nat (int y), nat (int x)) img" by blast
    then show ?thesis by (simp add: good_def)
  qed
  with run img(2) show ?thesis by blast
qed

lemma wf_grid_iff: "wf_grid n g \<longleftrightarrow> length g = n \<and> (\<forall>row\<in>set g. length row = n)"
  by (auto simp add: wf_grid_def all_set_conv_all_nth)

section \<open>The claims\<close>










text \<open>
  C2. For every resolution \<open>res \<ge> 1\<close>, every constant and every iteration cap, the grid
  computation returns an array of shape \<open>res \<times> res\<close> whose cell in row \<open>y\<close> and column
  \<open>x\<close> equals the cell in row \<open>(res - y) mod res\<close> and column \<open>(res - x) mod res\<close>, for
  all valid indices. The computation tests only the pixels with \<open>y \<ge> 0\<close> and assigns each
  result to the pixel and to the cell that the negated indices address.
\<close>

theorem grid_point_symmetry:
  assumes "1 \<le> res"
  shows "\<exists>s. compute_grid c max_iter res = Inr s \<and> wf_grid (nat res) (pixels s) \<and>
           (\<forall>y<nat res. \<forall>x<nat res.
              pixels s ! y ! x = pixels s ! ((nat res - y) mod nat res) ! ((nat res - x) mod nat res))"
proof -
  from compute_grid_inv [OF assms, of c max_iter]
  obtain s where s: "compute_grid c max_iter res = Inr s" "grid_inv (nat res) s" by blast
  from s(2) have "wf_grid (nat res) (pixels s)"
    and "\<forall>y<nat res. \<forall>x<nat res.
          pixels s ! y ! x = pixels s ! ((nat res - y) mod nat res) ! ((nat res - x) mod nat res)"
    unfolding grid_inv_def mirror_def by blast+
  with s(1) show ?thesis by blast
qed

theorem grid_point_symmetry_witness:
  "\<exists>s. compute_grid 0 10 4 = Inr s \<and> length (pixels s) = 4 \<and>
        pixels s ! 3 ! 1 = pixels s ! 1 ! 3"
proof -
  have h: "(1::int) \<le> 4" by simp
  from grid_point_symmetry [OF h, of 0 10]
  obtain s where s: "compute_grid 0 10 4 = Inr s" "wf_grid (nat 4) (pixels s)"
    "\<forall>y<nat 4. \<forall>x<nat 4.
       pixels s ! y ! x = pixels s ! ((nat 4 - y) mod nat 4) ! ((nat 4 - x) mod nat 4)"
    by blast
  have "(3::nat) < nat 4" "(1::nat) < nat 4" by simp_all
  then have "pixels s ! 3 ! 1 = pixels s ! ((nat 4 - 3) mod nat 4) ! ((nat 4 - 1) mod nat 4)"
    by (rule s(3) [rule_format])
  moreover have "(nat 4 - 3) mod nat 4 = 1" "(nat 4 - 1) mod nat 4 = 3" by simp_all
  ultimately have "pixels s ! 3 ! 1 = pixels s ! 1 ! 3" by (simp only:)
  moreover have "length (pixels s) = 4" using s(2) by (simp add: wf_grid_def)
  ultimately show ?thesis using s(1) by blast
qed

text \<open>
  C5, as amended. For every resolution \<open>res \<ge> 1\<close>, no cell outside the row \<open>res / 2\<close> is
  assigned more than once by the double loop; for an odd resolution, which has no such
  row, the assigned cells are pairwise distinct; for an even resolution every cell of
  the row \<open>res / 2\<close> is assigned exactly twice. The claim as stated fails for an even
  resolution: at resolution \<open>2\<close> the two assignments of one iteration address the same
  cell of row \<open>1\<close>.
\<close>

theorem writes_disjoint_off_middle_row:
  assumes "1 \<le> res"
  shows "\<exists>s. compute_grid c max_iter res = Inr s \<and>
           distinct (filter (\<lambda>cell. 2 * int (fst cell) \<noteq> res) (written s)) \<and>
           (odd res \<longrightarrow> distinct (written s)) \<and>
           (even res \<longrightarrow> (\<forall>x<nat res. count_list (written s) (nat res div 2, x) = 2))"
proof -
  from compute_grid_inv [OF assms, of c max_iter]
  obtain s where s: "compute_grid c max_iter res = Inr s"
      "written s = concat (map (\<lambda>xpixel. concat (map (cells_of res xpixel) [0..res - 1]))
                            [0..res - 1])" by blast
  have d: "distinct (filter (off_middle res) (written s))"
    unfolding s(2) by (rule written_off_middle_distinct [OF assms])
  have f: "off_middle res = (\<lambda>cell. 2 * int (fst cell) \<noteq> res)"
    by (rule ext) (simp add: off_middle_def)
  have o: "distinct (written s)" if "odd res"
    using d odd_off_middle [OF that, of "written s"] by simp
  have e: "\<forall>x<nat res. count_list (written s) (nat res div 2, x) = 2" if "even res"
    unfolding s(2) using middle_row_count [OF assms that] by blast
  from d s(1) o e show ?thesis unfolding f by blast
qed

theorem writes_disjoint_off_middle_row_witness:
  "\<exists>s. compute_grid 0 10 4 = Inr s \<and> count_list (written s) (2, 1) = 2"
proof -
  have h: "(1::int) \<le> 4" by simp
  from writes_disjoint_off_middle_row [OF h, of 0 10]
  obtain s where s: "compute_grid 0 10 4 = Inr s"
    "even (4::int) \<longrightarrow> (\<forall>x<nat 4. count_list (written s) (nat 4 div 2, x) = 2)" by blast
  have "(1::nat) < nat 4" by simp
  with s(2) have "count_list (written s) (nat 4 div 2, 1) = 2" by simp
  then have "count_list (written s) (2, 1) = 2" by simp
  with s(1) show ?thesis by blast
qed

theorem writes_not_disjoint_counterexample:
  "map_sum id written (compute_grid 0 10 2) = Inr [(1, 0), (1, 0), (1, 1), (1, 1)] \<and>
   \<not> distinct [(1::nat, 0::nat), (1, 0), (1, 1), (1, 1)]"
  using written_res_two by simp

text \<open>
  C10. For every resolution \<open>res \<ge> 1\<close>, every constant and every iteration cap, no
  assignment of the grid computation addresses row \<open>0\<close>, and row \<open>0\<close> of the result is
  all zeros. For resolution \<open>1\<close> the result is the \<open>1 \<times> 1\<close> array holding \<open>0\<close>, with
  no assignment made.
\<close>

theorem row_zero_untouched:
  "(1 \<le> res \<longrightarrow>
      (\<exists>s. compute_grid c max_iter res = Inr s \<and> wf_grid (nat res) (pixels s) \<and>
           (\<forall>x<nat res. pixels s ! 0 ! x = 0) \<and> (\<forall>cell\<in>set (written s). fst cell \<noteq> 0))) \<and>
   compute_grid c max_iter 1 = Inr \<lparr>pixels = [[0]], written = []\<rparr>"
proof
  show "1 \<le> res \<longrightarrow>
      (\<exists>s. compute_grid c max_iter res = Inr s \<and> wf_grid (nat res) (pixels s) \<and>
           (\<forall>x<nat res. pixels s ! 0 ! x = 0) \<and> (\<forall>cell\<in>set (written s). fst cell \<noteq> 0))"
  proof
    assume res: "1 \<le> res"
    from compute_grid_inv [OF res, of c max_iter]
    obtain s where s: "compute_grid c max_iter res = Inr s" "grid_inv (nat res) s"
      "written s = concat (map (\<lambda>xpixel. concat (map (cells_of res xpixel) [0..res - 1]))
                            [0..res - 1])" by blast
    from s(2) have wf: "wf_grid (nat res) (pixels s)" and zero: "\<forall>x<nat res. pixels s ! 0 ! x = 0"
      unfolding grid_inv_def by blast+
    have "fst cell \<noteq> 0" if "cell \<in> set (written s)" for cell
    proof -
      from that obtain xpixel ypixel where "ypixel \<in> set [0..res - 1]"
        "cell \<in> set (cells_of res xpixel ypixel)"
        unfolding s(3) by auto
      then show ?thesis using cells_of_row [of ypixel res cell xpixel] by simp
    qed
    with s(1) wf zero show "\<exists>s. compute_grid c max_iter res = Inr s \<and> wf_grid (nat res) (pixels s) \<and>
           (\<forall>x<nat res. pixels s ! 0 ! x = 0) \<and> (\<forall>cell\<in>set (written s). fst cell \<noteq> 0)"
      by blast
  qed
next
  show "compute_grid c max_iter 1 = Inr \<lparr>pixels = [[0]], written = []\<rparr>"
    by (simp add: compute_grid_def pixel_body_def zeros_def)
qed

theorem row_zero_untouched_witness:
  "\<exists>s. compute_grid 0 10 4 = Inr s \<and> pixels s ! 0 ! 2 = 0 \<and> length (pixels s) = 4"
proof -
  have h: "(1::int) \<le> 4" by simp
  from row_zero_untouched [of 4 0 10] h
  obtain s where s: "compute_grid 0 10 4 = Inr s" "wf_grid (nat 4) (pixels s)"
    "\<forall>x<nat 4. pixels s ! 0 ! x = 0" by blast
  have "(2::nat) < nat 4" by simp
  then have "pixels s ! 0 ! 2 = 0" by (rule s(3) [rule_format])
  moreover have "length (pixels s) = 4" using s(2) by (simp add: wf_grid_def)
  ultimately show ?thesis using s(1) by blast
qed

text \<open>
  C4, as amended. For \<open>c = 0\<close>, resolution \<open>4\<close> and \<open>10\<close> iterations the escape grid is not
  all zero: with the escape radius \<open>1\<close>, the starts \<open>-2\<close>, \<open>-2 + \<i>\<close>, \<open>-1 + \<i>\<close> and
  \<open>1 + \<i>\<close> escape at the first iteration. The grid is, from row \<open>0\<close> to row \<open>3\<close>,
  \<open>[0, 0, 0, 0]\<close>, \<open>[1, 1, 0, 1]\<close>, \<open>[1, 0, 0, 0]\<close>, \<open>[1, 1, 0, 1]\<close>.
\<close>

theorem grid_res_four_pixels:
  "map_sum id pixels (compute_grid 0 10 4) =
     Inr [[0, 0, 0, 0], [1, 1, 0, 1], [1, 0, 0, 0], [1, 1, 0, 1]]"
  by (simp add: grid_res_four_zero)

theorem grid_res_four_counterexample:
  "map_sum id pixels (compute_grid 0 10 4) \<noteq> Inr (zeros 4 4)"
  by (simp add: grid_res_four_zero zeros_def eval_nat_numeral)

text \<open>
  C6. The colour stage does not map an all-zero grid to a black image. The maximum of
  the grid is \<open>0\<close>, the division by it makes every pixel NaN, NaN is not equal to \<open>0\<close>, and
  the conversion of the NaN hue raises \<^verbatim>\<open>ValueError\<close> at the first pixel: for every
  resolution \<open>res \<ge> 1\<close> and every hue offset the stage fails on the zero grid, and so does
  the whole program in colour mode at resolution \<open>1\<close>, whose grid is all zero.
\<close>

theorem colour_stage_all_zero:
  "(1 \<le> res \<longrightarrow> colour_stage hue_offset res (zeros (nat res) (nat res)) = Inl ValueError) \<and>
   render c max_iter 1 (colour_attr True) hue_offset = Inl ValueError"
proof -
  have one: "(1::int) \<le> 1" by simp
  have "zeros (nat 1) (nat 1) = [[0]]" by (simp add: zeros_def)
  then have "colour_stage hue_offset 1 [[0]] = Inl ValueError"
    using colour_stage_zeros [OF one, of hue_offset] by simp
  then have "render c max_iter 1 (colour_attr True) hue_offset = Inl ValueError"
    by (simp add: render_def compute_grid_res_one is_True_def colour_attr_def)
  then show ?thesis using colour_stage_zeros by blast
qed

theorem colour_stage_all_zero_witness:
  "(1::int) \<le> 1 \<and> colour_stage (67 / 100) 1 (zeros (nat 1) (nat 1)) = Inl ValueError"
proof -
  have h: "(1::int) \<le> 1" by simp
  with colour_stage_all_zero [of 1 "67 / 100"] show ?thesis by blast
qed

text \<open>
  C7. In colour mode, for a grid of shape \<open>res \<times> res\<close> whose maximum \<open>m\<close> is not \<open>0\<close> and
  an offset \<open>offset \<ge> 0\<close> (in particular in \<open>[0, 1)\<close>), the colour loop returns an image of
  the same shape in which, for every pixel, with \<open>v\<close> the value of the pixel in the
  normalised grid (the grid value divided by \<open>m\<close>): the image pixel is black when
  \<open>v = 0\<close>, and it is the colour that \<^verbatim>\<open>hsv_to_rgb\<close> gives for the hue
  \<open>(v + offset) mod 1\<close>, saturation \<open>1\<close> and value \<open>1/2\<close> when \<open>v > 0\<close>. Where the code leaves
  a hue of \<open>1\<close> or more unreduced, the conversion gives the same colour, since it depends
  on the fractional part of a non-negative hue only.
\<close>

theorem colour_stage_pixels:
  assumes "1 \<le> res" "wf_grid (nat res) g" "amax g = Inr m" "m \<noteq> 0" "0 \<le> hue_offset"
  shows "\<exists>img. colour_stage hue_offset res g = Inr img \<and> wf_grid (nat res) img \<and>
           (\<forall>y<nat res. \<forall>x<nat res.
              (g ! y ! x / m = 0 \<longrightarrow> img ! y ! x = (0, 0, 0)) \<and>
              (0 < g ! y ! x / m \<longrightarrow>
                 Inr (img ! y ! x) =
                   hsv_to_rgb (Fin (frac (g ! y ! x / m + hue_offset))) 1 (1 / 2)))"
proof -
  from colour_stage_cells [OF assms(1-4), of hue_offset]
  obtain img where img: "colour_stage hue_offset res g = Inr img" "wf_grid (nat res) img"
    "\<forall>y<nat res. \<forall>x<nat res. colour_pixel hue_offset (Fin (g ! y ! x / m)) = Inr (img ! y ! x)"
    by blast
  have "(g ! y ! x / m = 0 \<longrightarrow> img ! y ! x = (0, 0, 0)) \<and>
        (0 < g ! y ! x / m \<longrightarrow>
           Inr (img ! y ! x) = hsv_to_rgb (Fin (frac (g ! y ! x / m + hue_offset))) 1 (1 / 2))"
    if "y < nat res" "x < nat res" for y x
  proof -
    have c: "colour_pixel hue_offset (Fin (g ! y ! x / m)) = Inr (img ! y ! x)"
      using img(3) that by blast
    have black: "colour_pixel hue_offset (Fin 0) = Inr (0, 0, 0)"
      using colour_pixel_value [of hue_offset] by blast
    have hue: "0 < v \<Longrightarrow> colour_pixel hue_offset (Fin v) =
        hsv_to_rgb (Fin (frac (v + hue_offset))) 1 (1 / 2)" for v
      using colour_pixel_value [of hue_offset v] assms(5) by blast
    show ?thesis
    proof (intro conjI impI)
      assume "g ! y ! x / m = 0"
      with c black show "img ! y ! x = (0, 0, 0)" by simp
    next
      assume "0 < g ! y ! x / m"
      from hue [OF this] c
      show "Inr (img ! y ! x) = hsv_to_rgb (Fin (frac (g ! y ! x / m + hue_offset))) 1 (1 / 2)"
        by simp
    qed
  qed
  with img(1,2) show ?thesis by blast
qed

theorem colour_stage_pixels_witness:
  "\<exists>img. colour_stage (67 / 100) 4 [[0, 0, 0, 0], [1, 1, 0, 1], [1, 0, 0, 0], [1, 1, 0, 1]] = Inr img \<and>
         img ! 0 ! 0 = (0, 0, 0) \<and>
         Inr (img ! 1 ! 0) = hsv_to_rgb (Fin (frac (1 + 67 / 100))) 1 (1 / 2)"
proof -
  let ?g = "[[0, 0, 0, 0], [1, 1, 0, 1], [1, 0, 0, 0], [1, 1, 0, 1::real]]"
  have h: "(1::int) \<le> 4" "wf_grid (nat 4) ?g" "amax ?g = Inr 1" "(1::real) \<noteq> 0"
    "(0::real) \<le> 67 / 100"
    by (simp_all add: wf_grid_iff amax_def)
  from colour_stage_pixels [OF h]
  obtain img where img: "colour_stage (67 / 100) 4 ?g = Inr img"
    "\<forall>y<nat 4. \<forall>x<nat 4.
       (?g ! y ! x / 1 = 0 \<longrightarrow> img ! y ! x = (0, 0, 0)) \<and>
       (0 < ?g ! y ! x / 1 \<longrightarrow>
          Inr (img ! y ! x) = hsv_to_rgb (Fin (frac (?g ! y ! x / 1 + 67 / 100))) 1 (1 / 2))"
    by blast
  have a: "img ! 0 ! 0 = (0, 0, 0)"
    using img(2) [rule_format, of 0 0] by simp
  have b: "Inr (img ! 1 ! 0) = hsv_to_rgb (Fin (frac (1 + 67 / 100))) 1 (1 / 2)"
    using img(2) [rule_format, of 1 0] by simp
  from img(1) a b show ?thesis by blast
qed

text \<open>
  C8. The test \<^verbatim>\<open>args.colour is True\<close> holds exactly when the option was given on the
  command line: without the option the attribute is the string default, which is not
  the constant \<^verbatim>\<open>True\<close>, and the image is the greyscale grid; with the option the image
  is the result of the colour stage.
\<close>

theorem colour_flag:
  "is_True (colour_attr given) = given \<and>
   render c max_iter res (colour_attr False) hue_offset =
     (case compute_grid c max_iter res of
        Inl e \<Rightarrow> Inl e
      | Inr s \<Rightarrow> Inr (Grey (pixels s))) \<and>
   render c max_iter res (colour_attr True) hue_offset =
     (case compute_grid c max_iter res of
        Inl e \<Rightarrow> Inl e
      | Inr s \<Rightarrow>
          (case colour_stage hue_offset res (pixels s) of
             Inl e \<Rightarrow> Inl e
           | Inr colour_pixels \<Rightarrow> Inr (Colour colour_pixels)))"
  by (simp add: is_True_def colour_attr_def render_def split: sum.splits)

theorem colour_flag_witness:
  "is_True (colour_attr True) \<and> \<not> is_True (colour_attr False)"
  using colour_flag [of True] colour_flag [of False] by simp

end
